theory Spec2Isabelle
  imports Complex_Main
begin

section \<open>Strings\<close>

text \<open>
  A JavaScript string is a sequence of UTF-16 code units; \<open>line[i]\<close>, \<open>split\<close> and
  \<open>trim\<close> all work on code units. A code unit is modelled by its number, a string by
  the list of its code units. \<open>js\<close> turns an ASCII literal into such a string.
\<close>

type_synonym code_unit = nat
type_synonym jsstring = "code_unit list"

definition js :: "string \<Rightarrow> jsstring" where
  "js s = map of_char s"

definition QUOTE :: code_unit where "QUOTE = 34"
definition COMMA :: code_unit where "COMMA = 44"
definition LF :: code_unit where "LF = 10"
definition CR :: code_unit where "CR = 13"

text \<open>
  The code units that \<open>String.prototype.trim\<close> strips: the WhiteSpace and
  LineTerminator productions of ECMAScript (TAB, LF, VT, FF, CR, SP, NBSP, the Unicode
  space separators, LS, PS and the byte order mark).
\<close>

definition is_js_whitespace :: "code_unit \<Rightarrow> bool" where
  "is_js_whitespace c \<longleftrightarrow>
     c = 9 \<or> c = 10 \<or> c = 11 \<or> c = 12 \<or> c = 13 \<or> c = 32 \<or> c = 160 \<or> c = 5760 \<or>
     (8192 \<le> c \<and> c \<le> 8202) \<or> c = 8232 \<or> c = 8233 \<or> c = 8239 \<or> c = 8287 \<or>
     c = 12288 \<or> c = 65279"

definition trim :: "jsstring \<Rightarrow> jsstring" where
  "trim s = rev (dropWhile is_js_whitespace (rev (dropWhile is_js_whitespace s)))"

text \<open>\<open>s.split(sep)\<close> for a separator of one code unit; \<open>"".split(sep)\<close> is \<open>[""]\<close>.\<close>

fun split_acc :: "code_unit \<Rightarrow> jsstring \<Rightarrow> jsstring \<Rightarrow> jsstring list" where
  "split_acc sep cur [] = [cur]"
| "split_acc sep cur (c # cs) =
     (if c = sep then cur # split_acc sep [] cs else split_acc sep (cur @ [c]) cs)"

definition split :: "jsstring \<Rightarrow> code_unit \<Rightarrow> jsstring list" where
  "split s sep = split_acc sep [] s"

section \<open>The CSV tokenizer\<close>

text \<open>
  The inner loop of \<open>parseCSV\<close>:
  \<^verbatim>\<open>
  for (let i = 0; i < line.length; i++) {
    const char = line[i];
    if (char === '"') {
      if (inQuotes && line[i + 1] === '"') { current += '"'; i++; }
      else { inQuotes = !inQuotes; }
    } else if (char === ',' && !inQuotes) { values.push(current); current = ''; }
    else { current += char; }
  }
  \<close>
  The loop variables are the state; \<open>line[i + 1]\<close> past the end is \<open>undefined\<close> in
  JavaScript, which is not a quote, so the read is guarded. The function returns the
  state the loop ends in.
\<close>

function scan :: "jsstring \<Rightarrow> nat \<Rightarrow> jsstring list \<Rightarrow> jsstring \<Rightarrow> bool
    \<Rightarrow> jsstring list \<times> jsstring \<times> bool" where
  "scan line i values current inQuotes =
     (if i < length line then
        (if line ! i = QUOTE then
           (if inQuotes \<and> i + 1 < length line \<and> line ! (i + 1) = QUOTE
            then scan line (i + 2) values (current @ [QUOTE]) inQuotes
            else scan line (i + 1) values current (\<not> inQuotes))
         else if line ! i = COMMA \<and> \<not> inQuotes
           then scan line (i + 1) (values @ [current]) [] inQuotes
         else scan line (i + 1) values (current @ [line ! i]) inQuotes)
      else (values, current, inQuotes))"
  by pat_completeness auto
termination
  by (relation "measure (\<lambda>(line, i, values, current, inQuotes). length line - i)") auto

declare scan.simps [simp del]

text \<open>One line: the loop from the empty state, then \<open>values.push(current)\<close>.\<close>

definition parse_line :: "jsstring \<Rightarrow> jsstring list" where
  "parse_line line = (case scan line 0 [] [] False of (values, current, inQuotes) \<Rightarrow> values @ [current])"

text \<open>
  The outer loop \<open>for (const line of lines)\<close> with the array \<open>result\<close> it pushes to;
  \<open>if (line.trim())\<close> holds when the trimmed line is not the empty string.
\<close>

fun parse_lines :: "jsstring list \<Rightarrow> jsstring list list \<Rightarrow> jsstring list list" where
  "parse_lines [] result = result"
| "parse_lines (line # lines) result =
     (if trim line \<noteq> [] then parse_lines lines (result @ [parse_line line])
      else parse_lines lines result)"

definition parseCSV :: "jsstring \<Rightarrow> jsstring list list" where
  "parseCSV csvText = parse_lines (split csvText LF) []"

section \<open>JSON values and JavaScript tests\<close>

text \<open>
  A JavaScript number is a double: a finite one, \<open>Infinity\<close> or \<open>-Infinity\<close>
  (\<open>JSON.parse\<close> reads \<open>1e400\<close> as \<open>Infinity\<close>; it never gives \<open>NaN\<close>, and the
  handler does no arithmetic). \<open>Finite q\<close> is the finite double of value \<open>q\<close>, with
  \<open>Finite 0\<close> the positive zero, and \<open>NegZero\<close> is \<open>-0\<close>. Which rationals are
  doubles, and the rounding by which \<open>JSON.parse\<close> reaches a double from a decimal
  literal, are left out: a request is given by the value \<open>req.json()\<close> returns, not
  by its text, and a rational that is no double is the value of no request.
\<close>

datatype jsnumber = Finite rat | NegZero | PosInfinity | NegInfinity

text \<open>
  The values \<open>JSON.parse\<close> returns. An object is the list of its own properties in
  the order of their enumeration, with distinct keys. A value that may be
  \<open>undefined\<close> (a missing property) is a \<open>json option\<close>.
\<close>

datatype json =
    JNull
  | JBool bool
  | JNum jsnumber
  | JStr jsstring
  | JArr "json list"
  | JObj "(jsstring \<times> json) list"

text \<open>What a \<open>throw\<close> carries, as far as the \<open>catch\<close> of the handler looks at it:
  an \<open>Error\<close> with its message, or anything else.\<close>

datatype thrown = Error jsstring | NonError

text \<open>The test \<open>!v\<close> of JavaScript: \<open>undefined\<close>, \<open>null\<close>, \<open>false\<close>, \<open>0\<close>,
  \<open>-0\<close> and \<open>""\<close> are falsy; every other number, \<open>Infinity\<close> too, and every
  array and object is truthy.\<close>

fun js_truthy :: "json option \<Rightarrow> bool" where
  "js_truthy None = False"
| "js_truthy (Some JNull) = False"
| "js_truthy (Some (JBool b)) = b"
| "js_truthy (Some (JNum n)) = (n \<noteq> Finite 0 \<and> n \<noteq> NegZero)"
| "js_truthy (Some (JStr s)) = (s \<noteq> [])"
| "js_truthy (Some (JArr xs)) = True"
| "js_truthy (Some (JObj kvs)) = True"

text \<open>
  One of the properties \<open>action\<close>, \<open>row\<close>, \<open>data\<close>, \<open>success\<close>, \<open>error\<close>
  of a parsed value other than \<open>null\<close>: on an object the property or \<open>undefined\<close>,
  on a boolean, number, string or array \<open>undefined\<close>, as none of them has a property
  of these names.
\<close>

fun own_property :: "json \<Rightarrow> jsstring \<Rightarrow> json option" where
  "own_property (JObj kvs) k = map_of kvs k"
| "own_property v k = None"

text \<open>
  The read \<open>v.k\<close>: on \<open>null\<close> the engine throws a TypeError with the message
  \<open>Cannot read properties of null (reading 'k')\<close> (39 is the apostrophe).
\<close>

definition read_null_message :: "jsstring \<Rightarrow> jsstring" where
  "read_null_message k = js ''Cannot read properties of null (reading '' @ [39] @ k @ [39] @ js '')''"

fun get_prop :: "json \<Rightarrow> jsstring \<Rightarrow> thrown + json option" where
  "get_prop JNull k = Inl (Error (read_null_message k))"
| "get_prop v k = Inr (own_property v k)"

text \<open>
  The pattern \<open>const { action, row, data } = await req.json()\<close>: on \<open>null\<close> the
  engine throws a TypeError with this message.
\<close>

definition destructure_null_message :: jsstring where
  "destructure_null_message =
     js ''Cannot destructure property '' @ [39] @ js ''action'' @ [39] @ js '' of '' @ [39]
       @ js ''(intermediate value)'' @ [39] @ js '' as it is null.''"

text \<open>An object literal as \<open>JSON.stringify\<close> writes it: a property whose value is
  \<open>undefined\<close> is left out.\<close>

fun json_fields :: "(jsstring \<times> json option) list \<Rightarrow> (jsstring \<times> json) list" where
  "json_fields [] = []"
| "json_fields ((k, None) # ps) = json_fields ps"
| "json_fields ((k, Some v) # ps) = (k, v) # json_fields ps"

definition json_object :: "(jsstring \<times> json option) list \<Rightarrow> json" where
  "json_object ps = JObj (json_fields ps)"

definition rows_json :: "jsstring list list \<Rightarrow> json" where
  "rows_json rows = JArr (map (\<lambda>r. JArr (map JStr r)) rows)"

text \<open>
  What the text written by \<open>JSON.stringify\<close> denotes, for a value that came from
  \<open>JSON.parse\<close> or was built from strings, booleans and such values: the value
  itself, but with \<open>null\<close> in the place of every number that is not finite and
  \<open>0\<close> in the place of every \<open>-0\<close>, at any depth. (Any other double is written so
  that it reads back as the same double.)
\<close>

primrec stringify :: "json \<Rightarrow> json" where
  "stringify JNull = JNull"
| "stringify (JBool b) = JBool b"
| "stringify (JNum n) =
     (case n of
        Finite q \<Rightarrow> JNum n
      | NegZero \<Rightarrow> JNum (Finite 0)
      | PosInfinity \<Rightarrow> JNull
      | NegInfinity \<Rightarrow> JNull)"
| "stringify (JStr s) = JStr s"
| "stringify (JArr xs) = JArr (map stringify xs)"
| "stringify (JObj kvs) = JObj (map (map_prod id stringify) kvs)"

text \<open>\<open>s.replace(pat, rep)\<close> for a string pattern: the first occurrence only
  (\<open>rep\<close> is taken literally, as it is for a replacement without \<open>$\<close>).\<close>

fun replace :: "jsstring \<Rightarrow> jsstring \<Rightarrow> jsstring \<Rightarrow> jsstring" where
  "replace [] pat rep = (if pat = [] then rep else [])"
| "replace (c # cs) pat rep =
     (if take (length pat) (c # cs) = pat then rep @ drop (length pat) (c # cs)
      else c # replace cs pat rep)"

section \<open>The proxy\<close>

text \<open>
  A response: its status, its headers, and the JSON value its body text denotes
  (\<open>None\<close> for the \<open>null\<close> body of the preflight answer). Every body but that
  one is written by \<open>JSON.stringify\<close>.
\<close>

record response =
  status :: nat
  headers :: "(jsstring \<times> jsstring) list"
  body :: "json option"

definition corsHeaders :: "(jsstring \<times> jsstring) list" where
  "corsHeaders =
     [(js ''Access-Control-Allow-Origin'', js ''*''),
      (js ''Access-Control-Allow-Headers'',
       js ''authorization, x-client-info, apikey, content-type'')]"

definition json_response :: "nat \<Rightarrow> json \<Rightarrow> response" where
  "json_response st v =
     \<lparr>status = st,
      headers = corsHeaders @ [(js ''Content-Type'', js ''application/json'')],
      body = Some (stringify v)\<rparr>"

definition error_response :: "nat \<Rightarrow> json option \<Rightarrow> response" where
  "error_response st msg = json_response st (json_object [(js ''error'', msg)])"

text \<open>
  The request as the handler reads it: \<open>req.method\<close>,
  \<open>req.headers.get('Authorization')\<close> (\<open>None\<close> for \<open>null\<close>) and what
  \<open>await req.json()\<close> gives (\<open>Inl\<close> when it throws).
\<close>

record request =
  req_method :: jsstring
  req_authorization :: "jsstring option"
  req_json :: "thrown + json"

record user =
  email :: "jsstring option"

record auth_result =
  auth_user :: "user option"
  auth_error :: "jsstring option"

record fetch_response =
  resp_ok :: bool
  resp_text :: "thrown + jsstring"

text \<open>
  The world outside the handler: the environment variable, the identity provider
  (\<open>createClient\<close> and \<open>auth.getUser\<close>), the export endpoint, and the webhook
  (\<open>fetch\<close> with a POST body, then \<open>scriptResponse.json()\<close>). \<open>Inl\<close> is a throw.
\<close>

record env =
  APPS_SCRIPT_URL :: "jsstring option"
  getUser :: "jsstring \<Rightarrow> thrown + auth_result"
  fetch_csv :: "jsstring \<Rightarrow> thrown + fetch_response"
  fetch_script :: "jsstring \<Rightarrow> json \<Rightarrow> thrown + json"

text \<open>The outbound calls a run makes, in order. Logging is left out.\<close>

datatype effect =
    GetUser jsstring
  | FetchCsv jsstring
  | FetchScript jsstring json

type_synonym outcome = "effect list \<times> (thrown + response)"

definition SHEET_ID :: jsstring where
  "SHEET_ID = js ''1fP3CQXENr7j-mAFfDffBNi8ZZ5hSNX_Rw_C61L1W9Cs''"

definition csvUrl :: jsstring where
  "csvUrl = js ''https://docs.google.com/spreadsheets/d/'' @ SHEET_ID @ js ''/export?format=csv''"

text \<open>The branch \<open>if (action === 'read')\<close>.\<close>

definition read_action :: "env \<Rightarrow> jsstring option \<Rightarrow> outcome" where
  "read_action e userEmail =
     (case fetch_csv e csvUrl of
        Inl ex \<Rightarrow> ([FetchCsv csvUrl], Inl ex)
      | Inr resp \<Rightarrow>
          if \<not> resp_ok resp
          then ([FetchCsv csvUrl], Inl (Error (js ''Failed to fetch spreadsheet data'')))
          else (case resp_text resp of
                  Inl ex \<Rightarrow> ([FetchCsv csvUrl], Inl ex)
                | Inr csvText \<Rightarrow>
                    ([FetchCsv csvUrl],
                     Inr (json_response 200
                       (json_object
                          [(js ''data'', Some (rows_json (parseCSV csvText))),
                           (js ''userEmail'', map_option JStr userEmail)])))))"

text \<open>The body the proxy posts to the webhook:
  \<open>JSON.stringify({ action: 'update', row, data, userEmail })\<close>, as the webhook
  reads it.\<close>

definition update_payload :: "json option \<Rightarrow> json option \<Rightarrow> jsstring option \<Rightarrow> json" where
  "update_payload row data userEmail =
     stringify (json_object
       [(js ''action'', Some (JStr (js ''update''))),
        (js ''row'', row),
        (js ''data'', data),
        (js ''userEmail'', map_option JStr userEmail)])"

text \<open>What the proxy makes of the webhook's parsed answer \<open>result\<close>.\<close>

definition relay_result :: "json \<Rightarrow> thrown + response" where
  "relay_result result =
     (case get_prop result (js ''success'') of
        Inl ex \<Rightarrow> Inl ex
      | Inr success \<Rightarrow>
          if \<not> js_truthy success
          then (case get_prop result (js ''error'') of
                  Inl ex \<Rightarrow> Inl ex
                | Inr err \<Rightarrow>
                    Inr (error_response 400
                      (if js_truthy err then err else Some (JStr (js ''Update failed'')))))
          else Inr (json_response 200 (json_object [(js ''success'', Some (JBool True))])))"

text \<open>The branch \<open>if (action === 'update')\<close>: first the test
  \<open>if (!row || !data)\<close>, then (\<open>forward_update\<close>) the test of the configured URL
  and the call of the webhook.\<close>

definition forward_update :: "env \<Rightarrow> json option \<Rightarrow> json option \<Rightarrow> jsstring option \<Rightarrow> outcome" where
  "forward_update e row data userEmail =
     (case APPS_SCRIPT_URL e of
        None \<Rightarrow> ([], Inr (error_response 500 (Some (JStr (js ''Apps Script URL not configured'')))))
      | Some url \<Rightarrow>
          if url = []
          then ([], Inr (error_response 500 (Some (JStr (js ''Apps Script URL not configured'')))))
          else (case fetch_script e url (update_payload row data userEmail) of
                  Inl ex \<Rightarrow> ([FetchScript url (update_payload row data userEmail)], Inl ex)
                | Inr result \<Rightarrow>
                    ([FetchScript url (update_payload row data userEmail)],
                     relay_result result)))"

definition update_action :: "env \<Rightarrow> json option \<Rightarrow> json option \<Rightarrow> jsstring option \<Rightarrow> outcome" where
  "update_action e row data userEmail =
     (if \<not> js_truthy row \<or> \<not> js_truthy data
      then ([], Inr (error_response 400 (Some (JStr (js ''Missing row or data'')))))
      else forward_update e row data userEmail)"

text \<open>\<open>const { action, row, data } = await req.json()\<close> and the dispatch on
  \<open>action\<close>; destructuring \<open>null\<close> throws.\<close>

definition dispatch :: "env \<Rightarrow> jsstring option \<Rightarrow> json \<Rightarrow> outcome" where
  "dispatch e userEmail parsed =
     (if parsed = JNull then ([], Inl (Error destructure_null_message))
      else if own_property parsed (js ''action'') = Some (JStr (js ''read''))
        then read_action e userEmail
      else if own_property parsed (js ''action'') = Some (JStr (js ''update''))
        then update_action e (own_property parsed (js ''row'')) (own_property parsed (js ''data'')) userEmail
      else ([], Inr (error_response 400 (Some (JStr (js ''Invalid action''))))))"

definition after :: "effect \<Rightarrow> outcome \<Rightarrow> outcome" where
  "after x out = (x # fst out, snd out)"

text \<open>The body of the \<open>try\<close> block.\<close>

definition handle :: "env \<Rightarrow> request \<Rightarrow> outcome" where
  "handle e req =
     (case req_authorization req of
        None \<Rightarrow> ([], Inr (error_response 401 (Some (JStr (js ''No authorization header'')))))
      | Some authHeader \<Rightarrow>
          if authHeader = []
          then ([], Inr (error_response 401 (Some (JStr (js ''No authorization header'')))))
          else after (GetUser (replace authHeader (js ''Bearer '') []))
            (case getUser e (replace authHeader (js ''Bearer '') []) of
               Inl ex \<Rightarrow> ([], Inl ex)
             | Inr r \<Rightarrow>
                 (case auth_error r of
                    Some authError \<Rightarrow> ([], Inr (error_response 401 (Some (JStr (js ''Unauthorized'')))))
                  | None \<Rightarrow>
                      (case auth_user r of
                         None \<Rightarrow> ([], Inr (error_response 401 (Some (JStr (js ''Unauthorized'')))))
                       | Some u \<Rightarrow>
                           (case req_json req of
                              Inl ex \<Rightarrow> ([], Inl ex)
                            | Inr parsed \<Rightarrow> dispatch e (email u) parsed)))))"

text \<open>The \<open>catch\<close>: a throw becomes a 500 with the message of the \<open>Error\<close>,
  or \<open>Unknown error\<close>.\<close>

definition catch_all :: "outcome \<Rightarrow> response \<times> effect list" where
  "catch_all out =
     (case out of
        (effs, Inr resp) \<Rightarrow> (resp, effs)
      | (effs, Inl (Error message)) \<Rightarrow> (error_response 500 (Some (JStr message)), effs)
      | (effs, Inl NonError) \<Rightarrow> (error_response 500 (Some (JStr (js ''Unknown error''))), effs))"

text \<open>
  The handler given to \<open>serve\<close>: the preflight answer, then the \<open>try\<close> block under
  its \<open>catch\<close>. It returns the response and the outbound calls made.
\<close>

definition serve :: "env \<Rightarrow> request \<Rightarrow> response \<times> effect list" where
  "serve e req =
     (if req_method req = js ''OPTIONS''
      then (\<lparr>status = 200, headers = corsHeaders, body = None\<rparr>, [])
      else catch_all (handle e req))"

section \<open>The client's save\<close>

text \<open>
  \<open>handleSave\<close> of the spreadsheet editor: with no row being edited or no sheet loaded
  it returns at once; otherwise it invokes the proxy with this body. \<open>editingRow\<close> is
  the index of the row in \<open>data.rows\<close>; \<open>editData\<close> is a record of strings.
\<close>

record SheetData =
  sheet_headers :: "jsstring list"
  sheet_rows :: "jsstring list list"

record editor =
  sheet :: "SheetData option"
  editingRow :: "nat option"
  editData :: "(jsstring \<times> jsstring) list"

definition handleSave :: "editor \<Rightarrow> json option" where
  "handleSave st =
     (case editingRow st of
        None \<Rightarrow> None
      | Some i \<Rightarrow>
          (case sheet st of
             None \<Rightarrow> None
           | Some d \<Rightarrow>
               Some (json_object
                 [(js ''action'', Some (JStr (js ''update''))),
                  (js ''row'', Some (JNum (Finite (of_nat i + 2)))),
                  (js ''data'', Some (JObj (map (\<lambda>(k, v). (k, JStr v)) (editData st))))])))"

section \<open>Notions the properties are stated with\<close>

text \<open>
  The tokenizer as the specification words it, over the characters still to read: a
  quote toggles quote-mode unless quote-mode is on and the next character is a quote
  too, which gives one literal quote and passes both; a comma outside quote-mode ends
  the field, inside it is content; any other character is content.
\<close>

fun tokenize :: "jsstring \<Rightarrow> jsstring list \<Rightarrow> jsstring \<Rightarrow> bool
    \<Rightarrow> jsstring list \<times> jsstring \<times> bool" where
  "tokenize [] fs acc quoted = (fs, acc, quoted)"
| "tokenize (c # rest) fs acc quoted =
     (if c = QUOTE then
        (case rest of
           [] \<Rightarrow> tokenize rest fs acc (\<not> quoted)
         | d # rest' \<Rightarrow>
             if quoted \<and> d = QUOTE then tokenize rest' fs (acc @ [QUOTE]) quoted
             else tokenize rest fs acc (\<not> quoted))
      else if c = COMMA then
        (if quoted then tokenize rest fs (acc @ [COMMA]) quoted
         else tokenize rest (fs @ [acc]) [] quoted)
      else tokenize rest fs (acc @ [c]) quoted)"

definition tokenize_line :: "jsstring \<Rightarrow> jsstring list" where
  "tokenize_line line = (case tokenize line [] [] False of (fs, acc, quoted) \<Rightarrow> fs @ [acc])"

text \<open>
  The number of fields of a line of CSV text: one more than the number of separating
  commas, a comma separating when it stands outside quotes, that is after an even
  number of quote characters.
\<close>

fun separators :: "jsstring \<Rightarrow> bool \<Rightarrow> nat" where
  "separators [] quoted = 0"
| "separators (c # rest) quoted =
     (if c = QUOTE then separators rest (\<not> quoted)
      else if c = COMMA \<and> \<not> quoted then Suc (separators rest quoted)
      else separators rest quoted)"

definition csv_field_count :: "jsstring \<Rightarrow> nat" where
  "csv_field_count line = Suc (separators line False)"


text \<open>A text made of lines, a line feed between one line and the next.\<close>

fun join_lf :: "jsstring list \<Rightarrow> jsstring" where
  "join_lf [] = []"
| "join_lf [l] = l"
| "join_lf (l # l' # ls) = l @ LF # join_lf (l' # ls)"

definition blank :: "jsstring \<Rightarrow> bool" where
  "blank l = list_all is_js_whitespace l"

text \<open>
  A request that passes the preflight test and both authentication tests: its
  Authorization header is a non-empty string, and the identity provider knows the
  token taken from it, with no error, as a user of this email.
\<close>

definition authenticated :: "env \<Rightarrow> request \<Rightarrow> jsstring \<Rightarrow> jsstring option \<Rightarrow> bool" where
  "authenticated e req token userEmail \<longleftrightarrow>
     req_method req \<noteq> js ''OPTIONS'' \<and>
     (case req_authorization req of
        None \<Rightarrow> False
      | Some authHeader \<Rightarrow> authHeader \<noteq> [] \<and> token = replace authHeader (js ''Bearer '') []) \<and>
     getUser e token = Inr \<lparr>auth_user = Some \<lparr>email = userEmail\<rparr>, auth_error = None\<rparr>"

text \<open>An authenticated request whose body is JSON with action \<open>update\<close>, and what
  reading its \<open>row\<close> and \<open>data\<close> gives.\<close>

definition update_request ::
    "env \<Rightarrow> request \<Rightarrow> jsstring \<Rightarrow> jsstring option \<Rightarrow> json option \<Rightarrow> json option \<Rightarrow> bool" where
  "update_request e req token userEmail row data \<longleftrightarrow>
     authenticated e req token userEmail \<and>
     (case req_json req of
        Inl ex \<Rightarrow> False
      | Inr parsed \<Rightarrow>
          get_prop parsed (js ''action'') = Inr (Some (JStr (js ''update''))) \<and>
          get_prop parsed (js ''row'') = Inr row \<and>
          get_prop parsed (js ''data'') = Inr data)"

definition read_request :: "env \<Rightarrow> request \<Rightarrow> jsstring \<Rightarrow> jsstring option \<Rightarrow> bool" where
  "read_request e req token userEmail \<longleftrightarrow>
     authenticated e req token userEmail \<and>
     (case req_json req of
        Inl ex \<Rightarrow> False
      | Inr parsed \<Rightarrow>
          parsed \<noteq> JNull \<and> get_prop parsed (js ''action'') = Inr (Some (JStr (js ''read''))))"

subsection \<open>A concrete setting\<close>

text \<open>
  An identity provider that knows one token, an export of three lines, and a webhook
  that answers with a fixed value.
\<close>

definition example_csv :: jsstring where
  "example_csv = js ''email,name'' @ [LF] @ js ''ann@example.org,Ann'' @ [LF] @ js ''bob@example.org,Bob''"

definition example_env :: "json \<Rightarrow> env" where
  "example_env answer =
     \<lparr>APPS_SCRIPT_URL = Some (js ''https://script.example/exec''),
      getUser = (\<lambda>token.
        if token = js ''t0k''
        then Inr \<lparr>auth_user = Some \<lparr>email = Some (js ''ann@example.org'')\<rparr>, auth_error = None\<rparr>
        else Inr \<lparr>auth_user = None, auth_error = Some (js ''invalid JWT'')\<rparr>),
      fetch_csv = (\<lambda>url. Inr \<lparr>resp_ok = True, resp_text = Inr example_csv\<rparr>),
      fetch_script = (\<lambda>url payload. Inr answer)\<rparr>"

definition example_request :: "json \<Rightarrow> request" where
  "example_request parsed =
     \<lparr>req_method = js ''POST'',
      req_authorization = Some (js ''Bearer t0k''),
      req_json = Inr parsed\<rparr>"

definition example_editor :: editor where
  "example_editor =
     \<lparr>sheet = Some \<lparr>sheet_headers = [js ''email'', js ''name''],
                     sheet_rows = [[js ''ann@example.org'', js ''Ann''],
                                   [js ''bob@example.org'', js ''Bob'']]\<rparr>,
      editingRow = Some 0,
      editData = [(js ''email'', js ''ann@example.org''), (js ''name'', js ''Anna'')]\<rparr>"

section \<open>The tokenizer: the loop and the specification's state machine\<close>

lemma tokenize_step:
  assumes "i < length line"
  shows "tokenize (drop i line) vs cur q =
     (if line ! i = QUOTE then
        (if q \<and> i + 1 < length line \<and> line ! (i + 1) = QUOTE
         then tokenize (drop (i + 2) line) vs (cur @ [QUOTE]) q
         else tokenize (drop (i + 1) line) vs cur (\<not> q))
      else if line ! i = COMMA \<and> \<not> q
        then tokenize (drop (i + 1) line) (vs @ [cur]) [] q
      else tokenize (drop (i + 1) line) vs (cur @ [line ! i]) q)"
proof -
  from assms have d: "drop i line = line ! i # drop (Suc i) line"
    by (simp add: Cons_nth_drop_Suc)
  show ?thesis
  proof (cases "Suc i < length line")
    case False
    with assms have e: "drop (Suc i) line = []" by simp
    from False show ?thesis
      by (simp add: d e)
  next
    case True
    then have d2: "drop (Suc i) line = line ! Suc i # drop (Suc (Suc i)) line"
      by (simp add: Cons_nth_drop_Suc)
    from True show ?thesis
      by (auto simp: d d2 split: list.split)
  qed
qed

lemma scan_tokenize:
  "scan line i vs cur q = tokenize (drop i line) vs cur q"
proof (induction line i vs cur q rule: scan.induct)
  case (1 line i vs cur q)
  show ?case
  proof (cases "i < length line")
    case False
    then show ?thesis by (simp add: scan.simps)
  next
    case True
    show ?thesis
      by (subst scan.simps, subst tokenize_step [OF True]) (use True 1 in auto)
  qed
qed

lemma parse_line_tokenize: "parse_line line = tokenize_line line"
  by (simp add: parse_line_def tokenize_line_def scan_tokenize)

lemma parse_lines_acc:
  "parse_lines ls acc = acc @ map parse_line (filter (\<lambda>l. trim l \<noteq> []) ls)"
  by (induction ls arbitrary: acc) auto

lemma dropWhile_empty_iff: "dropWhile P xs = [] \<longleftrightarrow> list_all P xs"
  by (induction xs) auto

lemma trim_empty_iff: "trim s = [] \<longleftrightarrow> blank s"
proof -
  have "trim s = [] \<longleftrightarrow> dropWhile is_js_whitespace (rev (dropWhile is_js_whitespace s)) = []"
    by (simp add: trim_def)
  also have "\<dots> \<longleftrightarrow> list_all is_js_whitespace (dropWhile is_js_whitespace s)"
    by (simp add: dropWhile_empty_iff list_all_iff)
  also have "\<dots> \<longleftrightarrow> list_all is_js_whitespace s"
  proof (induction s)
    case Nil
    show ?case by simp
  next
    case (Cons c cs)
    then show ?case by auto
  qed
  finally show ?thesis by (simp add: blank_def)
qed

lemma split_acc_append:
  "split_acc sep cur (a @ sep # b) = split_acc sep cur a @ split_acc sep [] b"
  by (induction a arbitrary: cur) auto

lemma split_append: "split (a @ sep # b) sep = split a sep @ split b sep"
  by (simp add: split_def split_acc_append)

lemma split_acc_no_sep: "sep \<notin> set l \<Longrightarrow> split_acc sep cur l = [cur @ l]"
  by (induction l arbitrary: cur) auto

lemma split_no_sep: "sep \<notin> set l \<Longrightarrow> split l sep = [l]"
  by (simp add: split_def split_acc_no_sep)

lemma split_join_lf:
  "ls \<noteq> [] \<Longrightarrow> \<forall>l\<in>set ls. LF \<notin> set l \<Longrightarrow> split (join_lf ls) LF = ls"
proof (induction ls rule: join_lf.induct)
  case 1
  then show ?case by simp
next
  case (2 l)
  then show ?case by (simp add: split_no_sep)
next
  case (3 l l' ls)
  then show ?case by (simp add: split_append split_no_sep)
qed

lemma parseCSV_lines:
  "parseCSV csvText = map parse_line (filter (\<lambda>l. \<not> blank l) (split csvText LF))"
  by (simp add: parseCSV_def parse_lines_acc trim_empty_iff)

lemma parseCSV_append: "parseCSV (a @ LF # b) = parseCSV a @ parseCSV b"
  by (simp add: parseCSV_lines split_append)

lemma parseCSV_one_line:
  "LF \<notin> set l \<Longrightarrow> parseCSV l = (if blank l then [] else [parse_line l])"
  by (simp add: parseCSV_lines split_no_sep)

subsection \<open>Reasoning about the state machine\<close>

lemma COMMA_neq_QUOTE [simp]: "COMMA \<noteq> QUOTE" "QUOTE \<noteq> COMMA"
  by (simp_all add: COMMA_def QUOTE_def)

lemma tokenize_escaped:
  "tokenize (QUOTE # QUOTE # rest) fs acc True = tokenize rest fs (acc @ [QUOTE]) True"
  by simp

lemma tokenize_toggle:
  "\<not> (q \<and> (\<exists>r. rest = QUOTE # r)) \<Longrightarrow>
   tokenize (QUOTE # rest) fs acc q = tokenize rest fs acc (\<not> q)"
  by (cases rest) (auto split: list.split)

lemma tokenize_separator:
  "tokenize (COMMA # rest) fs acc False = tokenize rest (fs @ [acc]) [] False"
  by simp

lemma tokenize_content:
  "c \<noteq> QUOTE \<Longrightarrow> c = COMMA \<longrightarrow> q \<Longrightarrow>
   tokenize (c # rest) fs acc q = tokenize rest fs (acc @ [c]) q"
  by auto

lemma tokenize_induct [case_names Nil Escaped Toggle Separator Content]:
  assumes nil: "\<And>fs acc q. P [] fs acc q"
    and esc: "\<And>rest fs acc. P rest fs (acc @ [QUOTE]) True \<Longrightarrow> P (QUOTE # QUOTE # rest) fs acc True"
    and tog: "\<And>rest fs acc q. \<not> (q \<and> (\<exists>r. rest = QUOTE # r)) \<Longrightarrow> P rest fs acc (\<not> q)
                \<Longrightarrow> P (QUOTE # rest) fs acc q"
    and sep: "\<And>rest fs acc. P rest (fs @ [acc]) [] False \<Longrightarrow> P (COMMA # rest) fs acc False"
    and con: "\<And>c rest fs acc q. c \<noteq> QUOTE \<Longrightarrow> c = COMMA \<longrightarrow> q \<Longrightarrow> P rest fs (acc @ [c]) q
                \<Longrightarrow> P (c # rest) fs acc q"
  shows "P line0 fs0 acc0 q0"
proof (induction "length line0" arbitrary: line0 fs0 acc0 q0 rule: less_induct)
  case (less xs fs acc q)
  show ?case
  proof (cases xs)
    case Nil
    then show ?thesis by (simp add: nil)
  next
    case (Cons c rest)
    have IH: "\<And>ys fs' acc' q'. length ys \<le> length rest \<Longrightarrow> P ys fs' acc' q'"
      using less Cons by simp
    show ?thesis
    proof (cases "c = QUOTE")
      case True
      show ?thesis
      proof (cases "q \<and> (\<exists>r. rest = QUOTE # r)")
        case True
        then obtain r where r: "rest = QUOTE # r" and q: q by blast
        have "P r fs (acc @ [QUOTE]) True" by (rule IH) (simp add: r)
        then have "P (QUOTE # QUOTE # r) fs acc True" by (rule esc)
        with Cons \<open>c = QUOTE\<close> r q show ?thesis by simp
      next
        case False
        have "P rest fs acc (\<not> q)" by (rule IH) simp
        with False have "P (QUOTE # rest) fs acc q" by (rule tog)
        with Cons \<open>c = QUOTE\<close> show ?thesis by simp
      qed
    next
      case False
      show ?thesis
      proof (cases "c = COMMA \<and> \<not> q")
        case True
        have "P rest (fs @ [acc]) [] False" by (rule IH) simp
        then have "P (COMMA # rest) fs acc False" by (rule sep)
        with Cons True show ?thesis by simp
      next
        case F2: False
        have "P rest fs (acc @ [c]) q" by (rule IH) simp
        with False F2 have "P (c # rest) fs acc q" by (intro con) auto
        with Cons show ?thesis by simp
      qed
    qed
  qed
qed

lemma tokenize_fields_length:
  "length (fst (tokenize xs vs cur q)) = length vs + separators xs q"
proof (induction xs vs cur q rule: tokenize_induct)
  case (Nil fs acc q)
  show ?case by simp
next
  case (Escaped rest fs acc)
  then show ?case by simp
next
  case (Toggle rest fs acc q)
  then show ?case by (simp add: tokenize_toggle del: tokenize.simps)
next
  case (Separator rest fs acc)
  then show ?case by simp
next
  case (Content c rest fs acc q)
  then show ?case by (simp add: tokenize_content del: tokenize.simps)
qed

lemma length_parse_line: "length (parse_line line) = csv_field_count line"
proof -
  obtain vs cur q where t: "tokenize line [] [] False = (vs, cur, q)"
    by (cases "tokenize line [] [] False") auto
  from tokenize_fields_length [of line "[]" "[]" False] t
  have "length vs = separators line False" by simp
  with t show ?thesis
    by (simp add: parse_line_tokenize tokenize_line_def csv_field_count_def)
qed

lemma tokenize_snoc_plain:
  assumes "x \<noteq> QUOTE" "x \<noteq> COMMA"
  shows "tokenize (xs @ [x]) vs cur q =
     (case tokenize xs vs cur q of (vs', cur', q') \<Rightarrow> (vs', cur' @ [x], q'))"
proof (induction xs vs cur q rule: tokenize_induct)
  case (Nil fs acc q)
  from assms show ?case by simp
next
  case (Escaped rest fs acc)
  then show ?case by simp
next
  case (Toggle rest fs acc q)
  from Toggle(1) assms have "\<not> (q \<and> (\<exists>r. rest @ [x] = QUOTE # r))"
    by (cases rest) auto
  then have "tokenize (QUOTE # rest @ [x]) fs acc q = tokenize (rest @ [x]) fs acc (\<not> q)"
    by (rule tokenize_toggle)
  with Toggle show ?case by (simp add: tokenize_toggle del: tokenize.simps)
next
  case (Separator rest fs acc)
  then show ?case by simp
next
  case (Content c rest fs acc q)
  then show ?case by (simp add: tokenize_content del: tokenize.simps)
qed

lemma tokenize_snoc_quote:
  "tokenize xs vs cur q = (vs', cur', True) \<Longrightarrow>
   tokenize (xs @ [QUOTE]) vs cur q = (vs', cur', False)"
proof (induction xs vs cur q rule: tokenize_induct)
  case (Nil fs acc q)
  then show ?case by simp
next
  case (Escaped rest fs acc)
  then show ?case by simp
next
  case (Toggle rest fs acc q)
  from Toggle(1,3) have t: "tokenize rest fs acc (\<not> q) = (vs', cur', True)"
    by (simp add: tokenize_toggle del: tokenize.simps)
  have "\<not> (q \<and> (\<exists>r. rest @ [QUOTE] = QUOTE # r))"
  proof (cases rest)
    case Nil
    with t show ?thesis by simp
  next
    case (Cons d r)
    with Toggle(1) show ?thesis by auto
  qed
  then have "tokenize (QUOTE # rest @ [QUOTE]) fs acc q = tokenize (rest @ [QUOTE]) fs acc (\<not> q)"
    by (rule tokenize_toggle)
  with Toggle(2) [OF t] show ?case by simp
next
  case (Separator rest fs acc)
  then show ?case by simp
next
  case (Content c rest fs acc q)
  then show ?case by (simp add: tokenize_content del: tokenize.simps)
qed

lemma parse_line_snoc_plain:
  assumes "x \<noteq> QUOTE" "x \<noteq> COMMA"
  shows "parse_line (l @ [x]) = butlast (parse_line l) @ [last (parse_line l) @ [x]]"
proof -
  obtain vs cur q where t: "tokenize l [] [] False = (vs, cur, q)"
    by (cases "tokenize l [] [] False") auto
  with tokenize_snoc_plain [OF assms, of l "[]" "[]" False]
  show ?thesis by (simp add: parse_line_tokenize tokenize_line_def)
qed

lemma parse_line_CR:
  "parse_line (l @ [CR]) = butlast (parse_line l) @ [last (parse_line l) @ [CR]]"
  by (rule parse_line_snoc_plain) (simp_all add: CR_def QUOTE_def COMMA_def)

lemma parse_line_close_quote:
  assumes "scan l 0 [] [] False = (vs, cur, True)"
  shows "parse_line (l @ [QUOTE]) = parse_line l" "parse_line l = vs @ [cur]"
proof -
  from assms have t: "tokenize l [] [] False = (vs, cur, True)"
    by (simp add: scan_tokenize)
  from tokenize_snoc_quote [OF t] t
  show "parse_line (l @ [QUOTE]) = parse_line l" "parse_line l = vs @ [cur]"
    by (simp_all add: parse_line_tokenize tokenize_line_def)
qed

lemma blank_snoc_CR: "blank (l @ [CR]) = blank l"
  by (simp add: blank_def is_js_whitespace_def CR_def)

lemma parse_line_nonempty: "parse_line l \<noteq> []"
  by (simp add: parse_line_def split: prod.split)

section \<open>The proxy: stages of a request\<close>

lemma js_read_neq_update [simp]: "js ''read'' \<noteq> js ''update''" "js ''update'' \<noteq> js ''read''"
  by (simp_all add: js_def)

lemma js_OPTIONS_neq_POST [simp]: "js ''POST'' \<noteq> js ''OPTIONS''"
  by (simp add: js_def)


lemma stringify_rows_json: "stringify (rows_json rows) = rows_json rows"
  by (simp add: rows_json_def)

lemma stringify_string_object:
  "stringify (JObj (map (\<lambda>(k, v). (k, JStr v)) kvs)) = JObj (map (\<lambda>(k, v). (k, JStr v)) kvs)"
  by (induction kvs) auto

lemma get_prop_Inr:
  assumes "get_prop parsed k = Inr x"
  shows "parsed \<noteq> JNull" "own_property parsed k = x"
  using assms by (cases parsed; simp)+

lemma error_response_fields:
  "status (error_response st (Some m)) = st"
  "body (error_response st (Some m)) = Some (JObj [(js ''error'', stringify m)])"
  by (simp_all add: error_response_def json_response_def json_object_def)

lemma catch_all_effects: "snd (catch_all out) = fst out"
  by (cases out) (auto simp: catch_all_def split: sum.split thrown.split)


lemma serve_authenticated:
  assumes "authenticated e req token ue" "req_json req = Inr parsed"
  shows "serve e req = catch_all (after (GetUser token) (dispatch e ue parsed))"
proof -
  from assms(1) obtain h where h: "req_authorization req = Some h" "h \<noteq> []"
      "token = replace h (js ''Bearer '') []"
    by (auto simp: authenticated_def split: option.splits)
  from assms(1) have m: "req_method req \<noteq> js ''OPTIONS''"
    and g: "getUser e token = Inr \<lparr>auth_user = Some \<lparr>email = ue\<rparr>, auth_error = None\<rparr>"
    by (simp_all add: authenticated_def)
  from h g assms(2) have "handle e req = after (GetUser token) (dispatch e ue parsed)"
    by (simp add: handle_def)
  with m show ?thesis by (simp add: serve_def)
qed

lemma serve_update:
  assumes "update_request e req token ue row data"
  shows "serve e req = catch_all (after (GetUser token) (update_action e row data ue))"
proof -
  from assms obtain parsed where p: "req_json req = Inr parsed"
      "get_prop parsed (js ''action'') = Inr (Some (JStr (js ''update'')))"
      "get_prop parsed (js ''row'') = Inr row" "get_prop parsed (js ''data'') = Inr data"
    and a: "authenticated e req token ue"
    by (auto simp: update_request_def split: sum.splits)
  from p(2-4) [THEN get_prop_Inr(2)] get_prop_Inr(1) [OF p(2)]
  have "dispatch e ue parsed = update_action e row data ue"
    by (simp add: dispatch_def)
  with serve_authenticated [OF a p(1)] show ?thesis by simp
qed

lemma serve_update_rejected:
  assumes "update_request e req token ue row data" "\<not> js_truthy row \<or> \<not> js_truthy data"
  shows "serve e req = (error_response 400 (Some (JStr (js ''Missing row or data''))), [GetUser token])"
  using assms(2) by (auto simp: serve_update [OF assms(1)] update_action_def after_def catch_all_def)

lemma serve_update_forwarded:
  assumes "update_request e req token ue row data" "js_truthy row" "js_truthy data"
  shows "serve e req = catch_all (after (GetUser token) (forward_update e row data ue))"
  using assms(2,3) by (simp add: serve_update [OF assms(1)] update_action_def)

lemma forward_update_cases:
  "forward_update e row data ue =
     ([], Inr (error_response 500 (Some (JStr (js ''Apps Script URL not configured'')))))
   \<or> (\<exists>url r. forward_update e row data ue = ([FetchScript url (update_payload row data ue)], r))"
  by (auto simp: forward_update_def split: option.split sum.split)

lemma forward_update_configured:
  assumes "APPS_SCRIPT_URL e = Some url" "url \<noteq> []"
  shows "fst (forward_update e row data ue) = [FetchScript url (update_payload row data ue)]"
  using assms by (simp add: forward_update_def split: sum.split)


lemma serve_past_validation_differs:
  "catch_all (after (GetUser token) (forward_update e row data ue))
     \<noteq> (error_response 400 (Some (JStr (js ''Missing row or data''))), [GetUser token])"
proof -
  from forward_update_cases [of e row data ue] show ?thesis
  proof
    assume "forward_update e row data ue =
      ([], Inr (error_response 500 (Some (JStr (js ''Apps Script URL not configured'')))))"
    then have "status (fst (catch_all (after (GetUser token) (forward_update e row data ue)))) = 500"
      by (simp add: after_def catch_all_def error_response_fields)
    then show ?thesis by (auto simp: error_response_fields)
  next
    assume "\<exists>url r. forward_update e row data ue = ([FetchScript url (update_payload row data ue)], r)"
    then have "length (snd (catch_all (after (GetUser token) (forward_update e row data ue)))) = 2"
      by (auto simp: catch_all_effects after_def)
    then show ?thesis by auto
  qed
qed

lemma update_payload_shape:
  "update_payload (Some r) (Some d) ue =
     JObj ([(js ''action'', JStr (js ''update'')), (js ''row'', stringify r), (js ''data'', stringify d)]
           @ (case ue of None \<Rightarrow> [] | Some m \<Rightarrow> [(js ''userEmail'', JStr m)]))"
  by (simp add: update_payload_def json_object_def split: option.split)

lemma serve_read:
  assumes "read_request e req token ue"
    "fetch_csv e csvUrl = Inr \<lparr>resp_ok = True, resp_text = Inr csvText\<rparr>"
  shows "serve e req =
    (json_response 200 (json_object [(js ''data'', Some (rows_json (parseCSV csvText))),
                                     (js ''userEmail'', map_option JStr ue)]),
     [GetUser token, FetchCsv csvUrl])"
proof -
  from assms(1) obtain parsed where p: "req_json req = Inr parsed"
      "get_prop parsed (js ''action'') = Inr (Some (JStr (js ''read'')))"
    and a: "authenticated e req token ue"
    by (auto simp: read_request_def split: sum.splits)
  from p(2) obtain kvs where "parsed = JObj kvs"
    by (cases parsed) auto
  with p(2) have "dispatch e ue parsed = read_action e ue"
    by (simp add: dispatch_def)
  with serve_authenticated [OF a p(1)] assms(2) show ?thesis
    by (simp add: read_action_def after_def catch_all_def)
qed

lemma serve_null_body:
  assumes "authenticated e req token ue" "req_json req = Inr JNull"
  shows "serve e req = (error_response 500 (Some (JStr destructure_null_message)), [GetUser token])"
  by (simp add: serve_authenticated [OF assms] dispatch_def after_def catch_all_def)

lemma relay_null_answer:
  "relay_result JNull = Inl (Error (read_null_message (js ''success'')))"
  by (simp add: relay_result_def)

lemma example_authenticated:
  "authenticated (example_env answer) (example_request parsed) (js ''t0k'') (Some (js ''ann@example.org''))"
  by (simp add: authenticated_def example_env_def example_request_def js_def)

lemma example_update_request:
  "update_request (example_env answer)
     (example_request (JObj [(js ''action'', JStr (js ''update'')), (js ''row'', r), (js ''data'', d)]))
     (js ''t0k'') (Some (js ''ann@example.org'')) (Some r) (Some d)"
proof -
  have "get_prop (JObj [(js ''action'', JStr (js ''update'')), (js ''row'', r), (js ''data'', d)]) (js ''action'')
      = Inr (Some (JStr (js ''update'')))"
    and "get_prop (JObj [(js ''action'', JStr (js ''update'')), (js ''row'', r), (js ''data'', d)]) (js ''row'')
      = Inr (Some r)"
    and "get_prop (JObj [(js ''action'', JStr (js ''update'')), (js ''row'', r), (js ''data'', d)]) (js ''data'')
      = Inr (Some d)"
    by (simp_all add: js_def)
  then show ?thesis
    unfolding update_request_def using example_authenticated [of answer]
    by (simp add: example_request_def)
qed

section \<open>Validation of an update request\<close>

text \<open>
  Claim C1, as the code has it. For an authenticated request with action \<open>update\<close>, the
  proxy answers 400 with \<open>{error: "Missing row or data"}\<close>, having called nothing but
  the identity provider, if and only if \<open>row\<close> or \<open>data\<close> is falsy (absent,
  \<open>null\<close>, \<open>false\<close>, \<open>0\<close> or the empty string); when both are truthy the run
  goes on to the test of the webhook URL and the forwarding.
\<close>

theorem update_validation_tests_falsiness:
  assumes "update_request e req token userEmail row data"
  shows "(serve e req = (error_response 400 (Some (JStr (js ''Missing row or data''))), [GetUser token])
            \<longleftrightarrow> \<not> js_truthy row \<or> \<not> js_truthy data)
       \<and> (js_truthy row \<and> js_truthy data \<longrightarrow>
            serve e req = catch_all (after (GetUser token) (forward_update e row data userEmail)))"
proof (cases "js_truthy row \<and> js_truthy data")
  case True
  then have "serve e req = catch_all (after (GetUser token) (forward_update e row data userEmail))"
    using serve_update_forwarded [OF assms] by simp
  with True serve_past_validation_differs [of token e row data userEmail]
  show ?thesis by simp
next
  case False
  then have "\<not> js_truthy row \<or> \<not> js_truthy data" by simp
  from serve_update_rejected [OF assms this] False show ?thesis by blast
qed

theorem update_validation_tests_falsiness_witness:
  "update_request (example_env JNull)
     (example_request (JObj [(js ''action'', JStr (js ''update'')), (js ''row'', JNum (Finite 2)), (js ''data'', JNull)]))
     (js ''t0k'') (Some (js ''ann@example.org'')) (Some (JNum (Finite 2))) (Some JNull)
   \<and> serve (example_env JNull)
       (example_request (JObj [(js ''action'', JStr (js ''update'')), (js ''row'', JNum (Finite 2)), (js ''data'', JNull)]))
     = (error_response 400 (Some (JStr (js ''Missing row or data''))), [GetUser (js ''t0k'')])"
  using update_validation_tests_falsiness [OF example_update_request [of JNull "JNum (Finite 2)" JNull]]
    example_update_request [of JNull "JNum (Finite 2)" JNull]
  by simp

text \<open>
  Claim C1 as stated speaks of absent fields. A request whose \<open>row\<close> is present and
  equal to 0, with \<open>data\<close> present, is answered 400 with the same message.
\<close>

theorem update_row_zero_counterexample:
  "get_prop (JObj [(js ''action'', JStr (js ''update'')), (js ''row'', JNum (Finite 0)), (js ''data'', JObj [])])
      (js ''row'') = Inr (Some (JNum (Finite 0)))
   \<and> get_prop (JObj [(js ''action'', JStr (js ''update'')), (js ''row'', JNum (Finite 0)), (js ''data'', JObj [])])
      (js ''data'') = Inr (Some (JObj []))
   \<and> serve (example_env JNull)
       (example_request (JObj [(js ''action'', JStr (js ''update'')), (js ''row'', JNum (Finite 0)), (js ''data'', JObj [])]))
     = (error_response 400 (Some (JStr (js ''Missing row or data''))), [GetUser (js ''t0k'')])"
proof -
  have "serve (example_env JNull)
       (example_request (JObj [(js ''action'', JStr (js ''update'')), (js ''row'', JNum (Finite 0)), (js ''data'', JObj [])]))
     = (error_response 400 (Some (JStr (js ''Missing row or data''))), [GetUser (js ''t0k'')])"
    by (rule serve_update_rejected [OF example_update_request]) simp
  then show ?thesis by (simp add: js_def)
qed

text \<open>
  Claim C9. An authenticated \<open>update\<close> request whose \<open>row\<close> or \<open>data\<close> is falsy is
  answered 400 with \<open>{error: "Missing row or data"}\<close> and the webhook is not called;
  in particular when \<open>row\<close> is present and equal to 0, and when \<open>data\<close> is the empty
  string.
\<close>

theorem falsy_row_or_data_rejected:
  "(update_request e req token userEmail row data \<and> (\<not> js_truthy row \<or> \<not> js_truthy data) \<longrightarrow>
      serve e req = (error_response 400 (Some (JStr (js ''Missing row or data''))), [GetUser token])
      \<and> status (fst (serve e req)) = 400
      \<and> body (fst (serve e req)) = Some (JObj [(js ''error'', JStr (js ''Missing row or data''))]))
   \<and> (update_request e req token userEmail (Some (JNum (Finite 0))) data \<longrightarrow>
      serve e req = (error_response 400 (Some (JStr (js ''Missing row or data''))), [GetUser token]))
   \<and> (update_request e req token userEmail row (Some (JStr [])) \<longrightarrow>
      serve e req = (error_response 400 (Some (JStr (js ''Missing row or data''))), [GetUser token]))"
proof (intro conjI impI)
  assume a: "update_request e req token userEmail row data \<and> (\<not> js_truthy row \<or> \<not> js_truthy data)"
  then have u: "update_request e req token userEmail row data"
    and f: "\<not> js_truthy row \<or> \<not> js_truthy data" by blast+
  from u f show r: "serve e req = (error_response 400 (Some (JStr (js ''Missing row or data''))), [GetUser token])"
    by (rule serve_update_rejected)
  show "status (fst (serve e req)) = 400"
    by (simp add: r error_response_fields)
  show "body (fst (serve e req)) = Some (JObj [(js ''error'', JStr (js ''Missing row or data''))])"
    by (simp add: r error_response_fields)
next
  assume "update_request e req token userEmail (Some (JNum (Finite 0))) data"
  then show "serve e req = (error_response 400 (Some (JStr (js ''Missing row or data''))), [GetUser token])"
    by (rule serve_update_rejected) simp
next
  assume "update_request e req token userEmail row (Some (JStr []))"
  then show "serve e req = (error_response 400 (Some (JStr (js ''Missing row or data''))), [GetUser token])"
    by (rule serve_update_rejected) simp
qed

theorem falsy_row_or_data_rejected_witness:
  "update_request (example_env JNull)
     (example_request (JObj [(js ''action'', JStr (js ''update'')), (js ''row'', JNum (Finite 0)), (js ''data'', JStr [])]))
     (js ''t0k'') (Some (js ''ann@example.org'')) (Some (JNum (Finite 0))) (Some (JStr []))
   \<and> \<not> js_truthy (Some (JNum (Finite 0)))
   \<and> status (fst (serve (example_env JNull)
       (example_request (JObj [(js ''action'', JStr (js ''update'')), (js ''row'', JNum (Finite 0)), (js ''data'', JStr [])]))))
     = 400
   \<and> snd (serve (example_env JNull)
       (example_request (JObj [(js ''action'', JStr (js ''update'')), (js ''row'', JNum (Finite 0)), (js ''data'', JStr [])])))
     = [GetUser (js ''t0k'')]"
proof -
  note u = example_update_request [of JNull "JNum (Finite 0)" "JStr []"]
  have f: "\<not> js_truthy (Some (JNum (Finite 0)))" by simp
  from u f falsy_row_or_data_rejected
      [of "example_env JNull"
          "example_request (JObj [(js ''action'', JStr (js ''update'')), (js ''row'', JNum (Finite 0)), (js ''data'', JStr [])])"
          "js ''t0k''" "Some (js ''ann@example.org'')" "Some (JNum (Finite 0))" "Some (JStr [])"]
  have "serve (example_env JNull)
       (example_request (JObj [(js ''action'', JStr (js ''update'')), (js ''row'', JNum (Finite 0)), (js ''data'', JStr [])]))
     = (error_response 400 (Some (JStr (js ''Missing row or data''))), [GetUser (js ''t0k'')])"
    by blast
  with u f show ?thesis by (simp add: error_response_fields)
qed

section \<open>Forwarding an update and relaying the answer\<close>




section \<open>Preflight and the Authorization header\<close>

text \<open>
  Claim C4. A preflight request (method \<open>OPTIONS\<close>) is answered with status 200 and no
  body, with no call to the identity provider or to anything else, whatever its
  headers. A request of any other method that has no Authorization header is answered
  401 with \<open>{error: "No authorization header"}\<close>, again before any outbound call, so
  before its body is read and an action dispatched.
\<close>

theorem preflight_then_authorization_header:
  "(req_method req = js ''OPTIONS'' \<longrightarrow>
      serve e req = (\<lparr>status = 200, headers = corsHeaders, body = None\<rparr>, []))
   \<and> (req_method req \<noteq> js ''OPTIONS'' \<and> req_authorization req = None \<longrightarrow>
      serve e req = (error_response 401 (Some (JStr (js ''No authorization header''))), [])
      \<and> status (fst (serve e req)) = 401
      \<and> body (fst (serve e req)) = Some (JObj [(js ''error'', JStr (js ''No authorization header''))]))"
  by (simp add: serve_def handle_def catch_all_def error_response_fields)

theorem preflight_then_authorization_header_witness:
  "req_method \<lparr>req_method = js ''OPTIONS'', req_authorization = None, req_json = Inl NonError\<rparr> = js ''OPTIONS''
   \<and> serve (example_env JNull) \<lparr>req_method = js ''OPTIONS'', req_authorization = None, req_json = Inl NonError\<rparr>
       = (\<lparr>status = 200, headers = corsHeaders, body = None\<rparr>, [])
   \<and> req_method \<lparr>req_method = js ''POST'', req_authorization = None, req_json = Inr JNull\<rparr> \<noteq> js ''OPTIONS''
   \<and> req_authorization \<lparr>req_method = js ''POST'', req_authorization = None, req_json = Inr JNull\<rparr> = None
   \<and> status (fst (serve (example_env JNull)
         \<lparr>req_method = js ''POST'', req_authorization = None, req_json = Inr JNull\<rparr>)) = 401
   \<and> snd (serve (example_env JNull)
         \<lparr>req_method = js ''POST'', req_authorization = None, req_json = Inr JNull\<rparr>) = []"
  using preflight_then_authorization_header
      [of "\<lparr>req_method = js ''OPTIONS'', req_authorization = None, req_json = Inl NonError\<rparr>" "example_env JNull"]
    preflight_then_authorization_header
      [of "\<lparr>req_method = js ''POST'', req_authorization = None, req_json = Inr JNull\<rparr>" "example_env JNull"]
  by (simp add: error_response_fields)

section \<open>The row number from the client to the webhook\<close>

lemma handleSave_row:
  assumes "handleSave st = Some b" "editingRow st = Some i"
  shows "b = JObj [(js ''action'', JStr (js ''update'')), (js ''row'', JNum (Finite (of_nat i + 2))),
                   (js ''data'', JObj (map (\<lambda>(k, v). (k, JStr v)) (editData st)))]"
  using assms by (simp add: handleSave_def json_object_def split: option.splits)

lemma get_prop_update_fields:
  "get_prop (JObj ((js ''action'', a) # (js ''row'', r) # (js ''data'', d) # rest)) (js ''action'') = Inr (Some a)"
  "get_prop (JObj ((js ''action'', a) # (js ''row'', r) # (js ''data'', d) # rest)) (js ''row'') = Inr (Some r)"
  "get_prop (JObj ((js ''action'', a) # (js ''row'', r) # (js ''data'', d) # rest)) (js ''data'') = Inr (Some d)"
  by (simp_all add: js_def)

text \<open>
  Claim C8. When the client saves the row it shows at index \<open>i\<close> (counted from 0 over
  the data rows), the body it sends has \<open>row = i + 2\<close>; and for an authenticated
  request with this body and a configured webhook URL, the proxy makes exactly one
  call to the webhook, whose body has the same \<open>row = i + 2\<close> and the same \<open>data\<close>.
\<close>

theorem saved_row_reaches_webhook:
  assumes "handleSave st = Some b" and "editingRow st = Some i"
    and "authenticated e req token userEmail" and "req_json req = Inr b"
    and "APPS_SCRIPT_URL e = Some url" and "url \<noteq> []"
  shows "get_prop b (js ''row'') = Inr (Some (JNum (Finite (of_nat i + 2))))
     \<and> (\<exists>payload. snd (serve e req) = [GetUser token, FetchScript url payload]
           \<and> get_prop payload (js ''action'') = Inr (Some (JStr (js ''update'')))
           \<and> get_prop payload (js ''row'') = Inr (Some (JNum (Finite (of_nat i + 2))))
           \<and> get_prop payload (js ''data'') = get_prop b (js ''data''))"
proof -
  let ?d = "JObj (map (\<lambda>(k, v). (k, JStr v)) (editData st))"
  let ?r = "JNum (Finite (of_nat i + 2))"
  have b: "b = JObj [(js ''action'', JStr (js ''update'')), (js ''row'', ?r), (js ''data'', ?d)]"
    using assms(1,2) by (rule handleSave_row)
  have u: "update_request e req token userEmail (Some ?r) (Some ?d)"
    using assms(3,4) get_prop_update_fields [of "JStr (js ''update'')" ?r ?d "[]"]
    by (simp add: update_request_def b del: get_prop.simps)
  have "serve e req = catch_all (after (GetUser token) (forward_update e (Some ?r) (Some ?d) userEmail))"
    using u by (rule serve_update_forwarded) simp_all
  then have "snd (serve e req) = [GetUser token, FetchScript url (update_payload (Some ?r) (Some ?d) userEmail)]"
    by (simp add: catch_all_effects after_def forward_update_configured [OF assms(5,6)])
  moreover have "get_prop (update_payload (Some ?r) (Some ?d) userEmail) (js ''row'') = Inr (Some ?r)"
    "get_prop (update_payload (Some ?r) (Some ?d) userEmail) (js ''data'') = Inr (Some ?d)"
    "get_prop (update_payload (Some ?r) (Some ?d) userEmail) (js ''action'') = Inr (Some (JStr (js ''update'')))"
  proof -
    have "stringify ?r = ?r" "stringify ?d = ?d"
      by (simp, rule stringify_string_object)
    then have p: "update_payload (Some ?r) (Some ?d) userEmail =
        JObj ((js ''action'', JStr (js ''update'')) # (js ''row'', ?r) # (js ''data'', ?d)
              # (case userEmail of None \<Rightarrow> [] | Some m \<Rightarrow> [(js ''userEmail'', JStr m)]))"
      by (simp only: update_payload_shape append_Cons append_Nil)
    show "get_prop (update_payload (Some ?r) (Some ?d) userEmail) (js ''row'') = Inr (Some ?r)"
      "get_prop (update_payload (Some ?r) (Some ?d) userEmail) (js ''data'') = Inr (Some ?d)"
      "get_prop (update_payload (Some ?r) (Some ?d) userEmail) (js ''action'') = Inr (Some (JStr (js ''update'')))"
      unfolding p by (rule get_prop_update_fields)+
  qed
  ultimately show ?thesis
    using get_prop_update_fields [of "JStr (js ''update'')" ?r ?d "[]"]
    by (simp add: b del: get_prop.simps)
qed

theorem saved_row_reaches_webhook_witness:
  "handleSave example_editor =
      Some (JObj [(js ''action'', JStr (js ''update'')), (js ''row'', JNum (Finite 2)),
                  (js ''data'', JObj [(js ''email'', JStr (js ''ann@example.org'')), (js ''name'', JStr (js ''Anna''))])])
   \<and> editingRow example_editor = Some 0
   \<and> (\<exists>payload. snd (serve (example_env (JObj [(js ''success'', JBool True)]))
          (example_request (JObj [(js ''action'', JStr (js ''update'')), (js ''row'', JNum (Finite 2)),
                  (js ''data'', JObj [(js ''email'', JStr (js ''ann@example.org'')), (js ''name'', JStr (js ''Anna''))])])))
        = [GetUser (js ''t0k''), FetchScript (js ''https://script.example/exec'') payload]
       \<and> get_prop payload (js ''row'') = Inr (Some (JNum (Finite 2))))"
proof -
  let ?b = "JObj [(js ''action'', JStr (js ''update'')), (js ''row'', JNum (Finite 2)),
                  (js ''data'', JObj [(js ''email'', JStr (js ''ann@example.org'')), (js ''name'', JStr (js ''Anna''))])]"
  have h: "handleSave example_editor = Some ?b"
    by (simp add: handleSave_def example_editor_def json_object_def)
  have i: "editingRow example_editor = Some 0"
    by (simp add: example_editor_def)
  have j: "req_json (example_request ?b) = Inr ?b"
    by (simp add: example_request_def)
  have u: "APPS_SCRIPT_URL (example_env (JObj [(js ''success'', JBool True)])) = Some (js ''https://script.example/exec'')"
    and n: "js ''https://script.example/exec'' \<noteq> []"
    by (simp_all add: example_env_def js_def)
  from saved_row_reaches_webhook [OF h i example_authenticated j u n] h i
  show ?thesis by (simp del: get_prop.simps) blast
qed

section \<open>Properties of the tokenizer\<close>

lemma split_acc_subset:
  "l \<in> set (split_acc sep cur s) \<Longrightarrow> set l \<subseteq> set cur \<union> set s"
proof (induction s arbitrary: cur)
  case Nil
  then show ?case by simp
next
  case (Cons c s)
  show ?case
  proof (cases "c = sep")
    case True
    with Cons.prems have "l = cur \<or> l \<in> set (split_acc sep [] s)" by simp
    then show ?thesis
    proof
      assume "l = cur"
      then show ?thesis by auto
    next
      assume "l \<in> set (split_acc sep [] s)"
      from Cons.IH [OF this] show ?thesis by auto
    qed
  next
    case False
    with Cons.prems have "l \<in> set (split_acc sep (cur @ [c]) s)" by simp
    from Cons.IH [OF this] show ?thesis by auto
  qed
qed

lemma blank_split: "blank w \<Longrightarrow> l \<in> set (split w sep) \<Longrightarrow> blank l"
  using split_acc_subset [of l sep "[]" w]
  by (auto simp: blank_def split_def list_all_iff)

lemma parseCSV_blank: "blank w \<Longrightarrow> parseCSV w = []"
  by (auto simp: parseCSV_lines filter_empty_conv dest: blank_split)

lemma parseCSV_Nil: "parseCSV [] = []"
  by (simp add: parseCSV_blank blank_def)

lemma blank_examples [simp]:
  "\<not> is_js_whitespace QUOTE" "\<not> is_js_whitespace COMMA" "is_js_whitespace CR" "is_js_whitespace LF"
  by (simp_all add: is_js_whitespace_def QUOTE_def COMMA_def CR_def LF_def)

lemma code_units_distinct [simp]:
  "QUOTE \<noteq> LF" "LF \<noteq> QUOTE" "CR \<noteq> LF" "LF \<noteq> CR" "CR \<noteq> QUOTE" "CR \<noteq> COMMA" "COMMA \<noteq> LF"
  by (simp_all add: QUOTE_def COMMA_def CR_def LF_def)

lemmas tokenizer_eval =
  js_def parseCSV_def split_def trim_def parse_line_def scan.simps QUOTE_def COMMA_def LF_def CR_def
  is_js_whitespace_def

lemma tokenize_quoted_run:
  "QUOTE \<notin> set s \<Longrightarrow> tokenize (s @ rest) fs acc True = tokenize rest fs (acc @ s) True"
proof (induction s arbitrary: acc)
  case Nil
  show ?case by simp
next
  case (Cons c s)
  then have "tokenize (c # s @ rest) fs acc True = tokenize (s @ rest) fs (acc @ [c]) True"
    by (intro tokenize_content) auto
  with Cons show ?case by simp
qed

lemma tokenize_plain_run:
  "QUOTE \<notin> set s \<Longrightarrow> COMMA \<notin> set s \<Longrightarrow>
   tokenize (s @ rest) fs acc q = tokenize rest fs (acc @ s) q"
proof (induction s arbitrary: acc)
  case Nil
  show ?case by simp
next
  case (Cons c s)
  then have "tokenize (c # s @ rest) fs acc q = tokenize (s @ rest) fs (acc @ [c]) q"
    by (intro tokenize_content) auto
  with Cons show ?case by simp
qed

lemma tokenize_fields_prefix:
  "tokenize xs (fs0 @ fs) acc q =
     (case tokenize xs fs acc q of (f, c, q') \<Rightarrow> (fs0 @ f, c, q'))"
proof (induction xs fs acc q rule: tokenize_induct)
  case (Nil fs acc q)
  show ?case by simp
next
  case (Escaped rest fs acc)
  then show ?case by simp
next
  case (Toggle rest fs acc q)
  then show ?case by (simp add: tokenize_toggle del: tokenize.simps)
next
  case (Separator rest fs acc)
  then show ?case by simp
next
  case (Content c rest fs acc q)
  then show ?case by (simp add: tokenize_content del: tokenize.simps)
qed

lemma tokenize_line_quoted:
  assumes "QUOTE \<notin> set s"
  shows "tokenize_line (QUOTE # s @ [QUOTE]) = [s]"
proof -
  have "tokenize (QUOTE # s @ [QUOTE]) [] [] False = tokenize (s @ [QUOTE]) [] [] True"
    using tokenize_toggle [of False "s @ [QUOTE]" "[]" "[]"] by simp
  also have "\<dots> = tokenize [QUOTE] [] s True"
    using tokenize_quoted_run [OF assms, of "[QUOTE]" "[]" "[]"] by simp
  finally show ?thesis by (simp add: tokenize_line_def)
qed

lemma tokenize_line_escaped:
  assumes "QUOTE \<notin> set s" "QUOTE \<notin> set t"
  shows "tokenize_line (QUOTE # s @ QUOTE # QUOTE # t @ [QUOTE]) = [s @ QUOTE # t]"
proof -
  have "tokenize (QUOTE # s @ QUOTE # QUOTE # t @ [QUOTE]) [] [] False
      = tokenize (s @ QUOTE # QUOTE # t @ [QUOTE]) [] [] True"
    using tokenize_toggle [of False "s @ QUOTE # QUOTE # t @ [QUOTE]" "[]" "[]"] by simp
  also have "\<dots> = tokenize (QUOTE # QUOTE # t @ [QUOTE]) [] s True"
    using tokenize_quoted_run [OF assms(1), of "QUOTE # QUOTE # t @ [QUOTE]" "[]" "[]"] by simp
  also have "\<dots> = tokenize (t @ [QUOTE]) [] (s @ [QUOTE]) True"
    by (rule tokenize_escaped)
  also have "\<dots> = tokenize [QUOTE] [] (s @ QUOTE # t) True"
    using tokenize_quoted_run [OF assms(2), of "[QUOTE]" "[]" "s @ [QUOTE]"] by simp
  finally show ?thesis by (simp add: tokenize_line_def)
qed

lemma tokenize_line_separator:
  assumes "QUOTE \<notin> set a" "COMMA \<notin> set a"
  shows "tokenize_line (a @ COMMA # b) = a # tokenize_line b"
proof -
  have "tokenize (a @ COMMA # b) [] [] False = tokenize (COMMA # b) [] a False"
    using tokenize_plain_run [OF assms, of "COMMA # b" "[]" "[]" False] by simp
  also have "\<dots> = tokenize b ([a] @ []) [] False"
    by simp
  also have "\<dots> = (case tokenize b [] [] False of (f, c, q') \<Rightarrow> ([a] @ f, c, q'))"
    by (rule tokenize_fields_prefix)
  finally show ?thesis by (simp add: tokenize_line_def split: prod.split)
qed

text \<open>
  Claim C2. The loop of \<open>parseCSV\<close> over a line is the state machine of the
  specification: from index \<open>i\<close> it does what \<open>tokenize\<close> does on the characters from
  \<open>i\<close> on, where a quote toggles quote-mode unless quote-mode is on and the next
  character is a quote (then one quote is appended and both are passed), a comma in
  quote-mode is content and a comma outside ends the field. Seen from outside: a
  quoted stretch is one field, its commas kept; two quotes inside it give one quote;
  a comma after an unquoted stretch ends that field. The two inputs of the
  specification give the rows it states.
\<close>

theorem parse_line_state_machine:
  "scan line i vs cur q = tokenize (drop i line) vs cur q
   \<and> parse_line line = tokenize_line line
   \<and> (QUOTE \<notin> set s \<longrightarrow> parse_line (QUOTE # s @ [QUOTE]) = [s])
   \<and> (QUOTE \<notin> set s \<and> QUOTE \<notin> set t \<longrightarrow>
        parse_line (QUOTE # s @ QUOTE # QUOTE # t @ [QUOTE]) = [s @ QUOTE # t])
   \<and> (QUOTE \<notin> set a \<and> COMMA \<notin> set a \<longrightarrow> parse_line (a @ COMMA # b) = a # parse_line b)
   \<and> parseCSV (js ''a,\"b,c\",d'') = [[js ''a'', js ''b,c'', js ''d'']]
   \<and> parseCSV (js ''a,\"b\"\"c\",d'') = [[js ''a'', js ''b\"c'', js ''d'']]"
proof (intro conjI impI)
  show "scan line i vs cur q = tokenize (drop i line) vs cur q"
    by (rule scan_tokenize)
  show "parse_line line = tokenize_line line"
    by (rule parse_line_tokenize)
  show "parse_line (QUOTE # s @ [QUOTE]) = [s]" if "QUOTE \<notin> set s"
    unfolding parse_line_tokenize using that by (rule tokenize_line_quoted)
  show "parse_line (QUOTE # s @ QUOTE # QUOTE # t @ [QUOTE]) = [s @ QUOTE # t]"
    if "QUOTE \<notin> set s \<and> QUOTE \<notin> set t"
    unfolding parse_line_tokenize using that by (intro tokenize_line_escaped) simp_all
  show "parse_line (a @ COMMA # b) = a # parse_line b" if "QUOTE \<notin> set a \<and> COMMA \<notin> set a"
    unfolding parse_line_tokenize using that by (intro tokenize_line_separator) simp_all
  show "parseCSV (js ''a,\"b,c\",d'') = [[js ''a'', js ''b,c'', js ''d'']]"
    by (simp add: tokenizer_eval)
  show "parseCSV (js ''a,\"b\"\"c\",d'') = [[js ''a'', js ''b\"c'', js ''d'']]"
    by (simp add: tokenizer_eval)
qed

theorem parse_line_state_machine_witness:
  "scan (js ''x,\"y,z'') 2 [js ''x''] [] False = tokenize (js ''\"y,z'') [js ''x''] [] False
   \<and> tokenize (js ''\"y,z'') [js ''x''] [] False = ([js ''x''], js ''y,z'', True)
   \<and> QUOTE \<notin> set (js ''b,c'') \<and> parse_line (QUOTE # js ''b,c'' @ [QUOTE]) = [js ''b,c'']
   \<and> QUOTE \<notin> set (js ''b'') \<and> QUOTE \<notin> set (js ''c'')
   \<and> parse_line (QUOTE # js ''b'' @ QUOTE # QUOTE # js ''c'' @ [QUOTE]) = [js ''b'' @ QUOTE # js ''c'']
   \<and> QUOTE \<notin> set (js ''a'') \<and> COMMA \<notin> set (js ''a'')
   \<and> parse_line (js ''a'' @ COMMA # js ''d'') = [js ''a'', js ''d'']"
proof -
  have d: "drop 2 (js ''x,\"y,z'') = js ''\"y,z''" by (simp add: js_def)
  have t: "tokenize (js ''\"y,z'') [js ''x''] [] False = ([js ''x''], js ''y,z'', True)"
    by (simp add: js_def QUOTE_def COMMA_def)
  have n: "QUOTE \<notin> set (js ''b,c'')" "QUOTE \<notin> set (js ''b'')" "QUOTE \<notin> set (js ''c'')"
    "QUOTE \<notin> set (js ''a'')" "COMMA \<notin> set (js ''a'')"
    by (simp_all add: js_def QUOTE_def COMMA_def)
  have l: "parse_line (js ''d'') = [js ''d'']"
    by (simp add: tokenizer_eval)
  note m = parse_line_state_machine
    [of "js ''x,\"y,z''" 2 "[js ''x'']" "[]" False "js ''b,c''" "[]" "js ''a''" "js ''d''"]
    parse_line_state_machine
    [of "js ''x,\"y,z''" 2 "[js ''x'']" "[]" False "js ''b''" "js ''c''" "js ''a''" "js ''d''"]
  from m(1) d have 1: "scan (js ''x,\"y,z'') 2 [js ''x''] [] False = tokenize (js ''\"y,z'') [js ''x''] [] False"
    by simp
  from m(1) n have 2: "parse_line (QUOTE # js ''b,c'' @ [QUOTE]) = [js ''b,c'']"
    by blast
  from m(2) n have 3: "parse_line (QUOTE # js ''b'' @ QUOTE # QUOTE # js ''c'' @ [QUOTE]) = [js ''b'' @ QUOTE # js ''c'']"
    by blast
  from m(2) n have "parse_line (js ''a'' @ COMMA # js ''d'') = js ''a'' # parse_line (js ''d'')"
    by blast
  with l have 4: "parse_line (js ''a'' @ COMMA # js ''d'') = [js ''a'', js ''d'']"
    by simp
  from 1 t n 2 3 4 show ?thesis by simp
qed

text \<open>
  Claim C6. For every input text the rows of \<open>parseCSV\<close> are the parsed lines that are
  not blank, in order: a line that is empty or made of whitespace only gives no row.
  So a blank stretch between two line feeds changes nothing, a blank text gives no
  row, and the input of the specification gives the two rows it states.
\<close>

theorem blank_lines_skipped:
  "parseCSV csvText = map parse_line (filter (\<lambda>l. \<not> blank l) (split csvText LF))
   \<and> (blank w \<longrightarrow> parseCSV (a @ LF # w @ LF # b) = parseCSV a @ parseCSV b)
   \<and> (blank w \<longrightarrow> parseCSV w = [])
   \<and> parseCSV (js ''a,b'' @ [LF, LF] @ js ''c,d'') = [[js ''a'', js ''b''], [js ''c'', js ''d'']]"
proof (intro conjI impI)
  show "parseCSV csvText = map parse_line (filter (\<lambda>l. \<not> blank l) (split csvText LF))"
    by (rule parseCSV_lines)
  show "parseCSV w = []" if "blank w"
    using that by (rule parseCSV_blank)
  show "parseCSV (a @ LF # w @ LF # b) = parseCSV a @ parseCSV b" if "blank w"
  proof -
    have "parseCSV (a @ LF # w @ LF # b) = parseCSV a @ parseCSV w @ parseCSV b"
      by (simp add: parseCSV_append)
    with that show ?thesis by (simp add: parseCSV_blank)
  qed
  show "parseCSV (js ''a,b'' @ [LF, LF] @ js ''c,d'') = [[js ''a'', js ''b''], [js ''c'', js ''d'']]"
    by (simp add: tokenizer_eval)
qed

theorem blank_lines_skipped_witness:
  "blank [32, 9]
   \<and> parseCSV (js ''a,b'' @ LF # [32, 9] @ LF # js ''c,d'') = parseCSV (js ''a,b'') @ parseCSV (js ''c,d'')
   \<and> parseCSV (js ''a,b'') @ parseCSV (js ''c,d'') = [[js ''a'', js ''b''], [js ''c'', js ''d'']]"
proof -
  have b: "blank [32, 9]" by (simp add: blank_def is_js_whitespace_def)
  have e: "parseCSV (js ''a,b'') = [[js ''a'', js ''b'']]" "parseCSV (js ''c,d'') = [[js ''c'', js ''d'']]"
    by (simp_all add: tokenizer_eval)
  from blank_lines_skipped [of "[]" "[32, 9]" "js ''a,b''" "js ''c,d''"] b
  have "parseCSV (js ''a,b'' @ LF # [32, 9] @ LF # js ''c,d'') = parseCSV (js ''a,b'') @ parseCSV (js ''c,d'')"
    by blast
  with b e show ?thesis by simp
qed

text \<open>
  Claim C7. \<open>parseCSV\<close> gives a result on every string (its loops are bounded by the
  length of what they read, and reading past the end of a line is no failure): at
  most one row per line, each row with at least one field. Lines are parsed one by
  one, the text before a line feed without regard to the text after it. When the loop
  ends a line in quote-mode, the fields read so far and the open field are the row,
  the same row as if a closing quote stood at the end of the line, and the next line
  starts outside quote-mode.
\<close>

theorem parseCSV_total_line_by_line:
  "(\<exists>rows. parseCSV csvText = rows \<and> length rows \<le> length (split csvText LF) \<and> (\<forall>r\<in>set rows. r \<noteq> []))
   \<and> parseCSV (a @ LF # b) = parseCSV a @ parseCSV b
   \<and> (LF \<notin> set l \<and> \<not> blank l \<and> scan l 0 [] [] False = (vs, cur, True) \<longrightarrow>
        parseCSV (l @ LF # b) = (vs @ [cur]) # parseCSV b
        \<and> parseCSV (l @ QUOTE # LF # b) = (vs @ [cur]) # parseCSV b)"
proof (intro conjI impI)
  show "\<exists>rows. parseCSV csvText = rows \<and> length rows \<le> length (split csvText LF) \<and> (\<forall>r\<in>set rows. r \<noteq> [])"
    by (auto simp: parseCSV_lines parse_line_nonempty)
  show "parseCSV (a @ LF # b) = parseCSV a @ parseCSV b"
    by (rule parseCSV_append)
next
  assume h: "LF \<notin> set l \<and> \<not> blank l \<and> scan l 0 [] [] False = (vs, cur, True)"
  then have s: "scan l 0 [] [] False = (vs, cur, True)" by simp
  from h show "parseCSV (l @ LF # b) = (vs @ [cur]) # parseCSV b"
    by (simp add: parseCSV_append parseCSV_one_line parse_line_close_quote(2) [OF s])
  from h have n: "LF \<notin> set (l @ [QUOTE])" and nb: "\<not> blank (l @ [QUOTE])"
    by (simp_all add: blank_def)
  from nb have "parseCSV (l @ [QUOTE]) = [parse_line (l @ [QUOTE])]"
    unfolding parseCSV_one_line [OF n] by (rule if_not_P)
  then have "parseCSV (l @ [QUOTE]) = [vs @ [cur]]"
    by (simp only: parse_line_close_quote [OF s])
  with parseCSV_append [of "l @ [QUOTE]" b]
  show "parseCSV (l @ QUOTE # LF # b) = (vs @ [cur]) # parseCSV b"
    by simp
qed

theorem parseCSV_total_line_by_line_witness:
  "LF \<notin> set (js ''a,\"b,c'') \<and> \<not> blank (js ''a,\"b,c'')
   \<and> scan (js ''a,\"b,c'') 0 [] [] False = ([js ''a''], js ''b,c'', True)
   \<and> parseCSV (js ''a,\"b,c'' @ LF # js ''d\",e'') = [js ''a'', js ''b,c''] # parseCSV (js ''d\",e'')
   \<and> parseCSV (js ''d\",e'') = [[js ''d,e'']]"
proof -
  have 1: "LF \<notin> set (js ''a,\"b,c'')" by (simp add: js_def LF_def)
  have 2: "\<not> blank (js ''a,\"b,c'')" by (simp add: js_def blank_def is_js_whitespace_def)
  have 3: "scan (js ''a,\"b,c'') 0 [] [] False = ([js ''a''], js ''b,c'', True)"
    by (simp add: js_def scan.simps QUOTE_def COMMA_def)
  have 4: "parseCSV (js ''d\",e'') = [[js ''d,e'']]"
    by (simp add: tokenizer_eval)
  from parseCSV_total_line_by_line [of "[]" "[]" "js ''d\",e''" "js ''a,\"b,c''" "[js ''a'']" "js ''b,c''"] 1 2 3
  have "parseCSV (js ''a,\"b,c'' @ LF # js ''d\",e'') = ([js ''a''] @ [js ''b,c'']) # parseCSV (js ''d\",e'')"
    by blast
  with 1 2 3 4 show ?thesis by simp
qed

text \<open>
  Claim C10. \<open>parseCSV\<close> splits at line feeds only. In a text with CRLF line endings
  the carriage return before a line feed stays in the line: the row of that line is
  the row of the line without it, with the carriage return added at the end of its
  last field. A line that is blank but for the carriage return, so a line made of the
  carriage return alone, gives no row. A text without line feed gives at most one row.
\<close>

theorem crlf_keeps_carriage_return:
  "(LF \<notin> set l \<and> \<not> blank l \<longrightarrow>
      parseCSV (l @ CR # LF # b) = (butlast (parse_line l) @ [last (parse_line l) @ [CR]]) # parseCSV b)
   \<and> (LF \<notin> set l \<and> blank l \<longrightarrow> parseCSV (l @ CR # LF # b) = parseCSV b)
   \<and> parseCSV (a @ LF # CR # LF # b) = parseCSV a @ parseCSV b
   \<and> parseCSV [CR] = []
   \<and> (LF \<notin> set t \<longrightarrow> length (parseCSV t) \<le> 1)
   \<and> parseCSV (js ''a,b'' @ [CR, LF] @ js ''c,d'') = [[js ''a'', js ''b'' @ [CR]], [js ''c'', js ''d'']]"
proof (intro conjI impI)
  have c: "parseCSV (l @ CR # LF # b) = parseCSV (l @ [CR]) @ parseCSV b"
    using parseCSV_append [of "l @ [CR]" b] by simp
  show "parseCSV (l @ CR # LF # b) = (butlast (parse_line l) @ [last (parse_line l) @ [CR]]) # parseCSV b"
    if "LF \<notin> set l \<and> \<not> blank l"
    using that by (simp add: c parseCSV_one_line blank_snoc_CR parse_line_CR)
  show "parseCSV (l @ CR # LF # b) = parseCSV b" if "LF \<notin> set l \<and> blank l"
    using that by (simp add: c parseCSV_one_line blank_snoc_CR)
  have "blank [CR]" by (simp add: blank_def)
  then show r: "parseCSV [CR] = []" by (rule parseCSV_blank)
  have "parseCSV (a @ LF # CR # LF # b) = parseCSV a @ parseCSV [CR] @ parseCSV b"
    using parseCSV_append [of a "CR # LF # b"] parseCSV_append [of "[CR]" b] by simp
  then show "parseCSV (a @ LF # CR # LF # b) = parseCSV a @ parseCSV b"
    by (simp add: r)
  show "length (parseCSV t) \<le> 1" if "LF \<notin> set t"
    using that by (simp add: parseCSV_one_line)
  show "parseCSV (js ''a,b'' @ [CR, LF] @ js ''c,d'') = [[js ''a'', js ''b'' @ [CR]], [js ''c'', js ''d'']]"
    by (simp add: tokenizer_eval)
qed

theorem crlf_keeps_carriage_return_witness:
  "LF \<notin> set (js ''a,\"b\"'') \<and> \<not> blank (js ''a,\"b\"'')
   \<and> parse_line (js ''a,\"b\"'') = [js ''a'', js ''b'']
   \<and> parseCSV (js ''a,\"b\"'' @ CR # LF # js ''c'') = [js ''a'', js ''b'' @ [CR]] # parseCSV (js ''c'')
   \<and> LF \<notin> set [32] \<and> blank [32]
   \<and> parseCSV ([32] @ CR # LF # js ''c'') = parseCSV (js ''c'')"
proof -
  have 1: "LF \<notin> set (js ''a,\"b\"'')" by (simp add: js_def LF_def)
  have 2: "\<not> blank (js ''a,\"b\"'')" by (simp add: js_def blank_def is_js_whitespace_def)
  have 3: "parse_line (js ''a,\"b\"'') = [js ''a'', js ''b'']"
    by (simp add: tokenizer_eval)
  have 4: "LF \<notin> set [32]" "blank [32]"
    by (simp_all add: LF_def blank_def is_js_whitespace_def)
  from crlf_keeps_carriage_return [of "js ''a,\"b\"''" "js ''c''" "[]" "[]"] 1 2
  have 5: "parseCSV (js ''a,\"b\"'' @ CR # LF # js ''c'')
      = (butlast (parse_line (js ''a,\"b\"'')) @ [last (parse_line (js ''a,\"b\"'')) @ [CR]]) # parseCSV (js ''c'')"
    by blast
  from crlf_keeps_carriage_return [of "[32]" "js ''c''" "[]" "[]"] 4
  have 6: "parseCSV ([32] @ CR # LF # js ''c'') = parseCSV (js ''c'')"
    by blast
  from 1 2 3 4 5 6 show ?thesis by simp
qed

section \<open>Reading a well-formed export\<close>

lemma parseCSV_join_lf:
  assumes "ls \<noteq> []" "\<forall>l\<in>set ls. LF \<notin> set l \<and> \<not> blank l"
  shows "parseCSV (join_lf ls) = map parse_line ls"
proof -
  from assms have "split (join_lf ls) LF = ls"
    by (simp add: split_join_lf)
  moreover from assms(2) have "filter (\<lambda>l. \<not> blank l) ls = ls"
    by (simp add: filter_id_conv)
  ultimately show ?thesis by (simp add: parseCSV_lines)
qed

lemma parseCSV_trailing_LF: "parseCSV (t @ [LF]) = parseCSV t"
  using parseCSV_append [of t "[]"] by (simp add: parseCSV_Nil)

lemma example_read_request:
  "read_request (example_env answer) (example_request (JObj [(js ''action'', JStr (js ''read''))]))
     (js ''t0k'') (Some (js ''ann@example.org''))"
  using example_authenticated [of answer]
  by (simp add: read_request_def example_request_def)

text \<open>
  Claim C5. Let the export be a text of a header line and N data lines, joined by line
  feeds (with or without a line feed at the end), no line blank, every data line with
  as many fields as the header line. Then an authenticated \<open>read\<close> is answered 200
  with a body whose \<open>data\<close> is an array of arrays of strings: first the fields of the
  header line, then exactly N arrays, the fields of the data lines in order, each
  with as many fields as the header.
\<close>

theorem read_returns_all_rows:
  assumes "read_request e req token userEmail"
    and "fetch_csv e csvUrl = Inr \<lparr>resp_ok = True, resp_text = Inr csvText\<rparr>"
    and "csvText = join_lf (header # dataLines) \<or> csvText = join_lf (header # dataLines) @ [LF]"
    and "\<forall>l\<in>set (header # dataLines). LF \<notin> set l \<and> \<not> blank l"
    and "\<forall>l\<in>set dataLines. csv_field_count l = csv_field_count header"
  shows "\<exists>headerRow rows.
      status (fst (serve e req)) = 200
      \<and> body (fst (serve e req)) =
          Some (JObj ((js ''data'', JArr (JArr (map JStr headerRow) # map (\<lambda>r. JArr (map JStr r)) rows))
                      # (case userEmail of None \<Rightarrow> [] | Some m \<Rightarrow> [(js ''userEmail'', JStr m)])))
      \<and> parseCSV csvText = headerRow # rows
      \<and> headerRow = parse_line header
      \<and> rows = map parse_line dataLines
      \<and> length headerRow = csv_field_count header
      \<and> length rows = length dataLines
      \<and> (\<forall>r\<in>set rows. length r = length headerRow)"
proof -
  have "parseCSV (join_lf (header # dataLines)) = map parse_line (header # dataLines)"
    using assms(4) by (intro parseCSV_join_lf) simp_all
  with assms(3) have p: "parseCSV csvText = parse_line header # map parse_line dataLines"
    by (auto simp: parseCSV_trailing_LF)
  have "stringify (rows_json (parseCSV csvText)) = rows_json (parseCSV csvText)"
    by (rule stringify_rows_json)
  then have "fst (serve e req) =
      \<lparr>status = 200,
       headers = corsHeaders @ [(js ''Content-Type'', js ''application/json'')],
       body = Some (JObj ((js ''data'', rows_json (parseCSV csvText))
                 # (case userEmail of None \<Rightarrow> [] | Some m \<Rightarrow> [(js ''userEmail'', JStr m)])))\<rparr>"
    by (simp add: serve_read [OF assms(1,2)] json_object_def json_response_def split: option.split)
  then have "status (fst (serve e req)) = 200"
    and "body (fst (serve e req)) =
          Some (JObj ((js ''data'', JArr (JArr (map JStr (parse_line header))
                                   # map (\<lambda>r. JArr (map JStr r)) (map parse_line dataLines)))
                      # (case userEmail of None \<Rightarrow> [] | Some m \<Rightarrow> [(js ''userEmail'', JStr m)])))"
    by (simp_all add: p rows_json_def)
  moreover have "\<forall>r\<in>set (map parse_line dataLines). length r = length (parse_line header)"
    using assms(5) by (simp add: length_parse_line)
  ultimately show ?thesis
    using p by (simp add: length_parse_line)
qed

theorem read_returns_all_rows_witness:
  "read_request (example_env JNull) (example_request (JObj [(js ''action'', JStr (js ''read''))]))
     (js ''t0k'') (Some (js ''ann@example.org''))
   \<and> example_csv = join_lf [js ''email,name'', js ''ann@example.org,Ann'', js ''bob@example.org,Bob'']
   \<and> csv_field_count (js ''email,name'') = 2
   \<and> csv_field_count (js ''ann@example.org,Ann'') = 2
   \<and> csv_field_count (js ''bob@example.org,Bob'') = 2
   \<and> status (fst (serve (example_env JNull) (example_request (JObj [(js ''action'', JStr (js ''read''))])))) = 200
   \<and> body (fst (serve (example_env JNull) (example_request (JObj [(js ''action'', JStr (js ''read''))]))))
       = Some (JObj [(js ''data'',
                      JArr [JArr [JStr (js ''email''), JStr (js ''name'')],
                            JArr [JStr (js ''ann@example.org''), JStr (js ''Ann'')],
                            JArr [JStr (js ''bob@example.org''), JStr (js ''Bob'')]]),
                     (js ''userEmail'', JStr (js ''ann@example.org''))])"
proof -
  let ?h = "js ''email,name''"
  let ?d = "[js ''ann@example.org,Ann'', js ''bob@example.org,Bob'']"
  have f: "fetch_csv (example_env JNull) csvUrl = Inr \<lparr>resp_ok = True, resp_text = Inr example_csv\<rparr>"
    by (simp add: example_env_def)
  have j: "example_csv = join_lf (?h # ?d)"
    by (simp add: example_csv_def)
  have c: "csv_field_count (js ''email,name'') = 2"
    "csv_field_count (js ''ann@example.org,Ann'') = 2"
    "csv_field_count (js ''bob@example.org,Bob'') = 2"
    by (simp_all add: csv_field_count_def js_def QUOTE_def COMMA_def)
  have n: "\<forall>l\<in>set (?h # ?d). LF \<notin> set l \<and> \<not> blank l"
    by (simp add: js_def LF_def blank_def is_js_whitespace_def)
  have k: "\<forall>l\<in>set ?d. csv_field_count l = csv_field_count ?h"
    by (simp add: c)
  have l: "parse_line (js ''email,name'') = [js ''email'', js ''name'']"
    "parse_line (js ''ann@example.org,Ann'') = [js ''ann@example.org'', js ''Ann'']"
    "parse_line (js ''bob@example.org,Bob'') = [js ''bob@example.org'', js ''Bob'']"
    by (simp_all add: tokenizer_eval)
  from read_returns_all_rows [OF example_read_request f disjI1 [OF j] n k]
  obtain headerRow rows where
    "status (fst (serve (example_env JNull) (example_request (JObj [(js ''action'', JStr (js ''read''))])))) = 200"
    "body (fst (serve (example_env JNull) (example_request (JObj [(js ''action'', JStr (js ''read''))])))) =
       Some (JObj [(js ''data'', JArr (JArr (map JStr headerRow) # map (\<lambda>r. JArr (map JStr r)) rows)),
                   (js ''userEmail'', JStr (js ''ann@example.org''))])"
    "headerRow = parse_line (js ''email,name'')"
    "rows = map parse_line ?d"
    by auto
  with l example_read_request [of JNull] j c show ?thesis by simp
qed

end
